theory Spec2Isabelle
  imports Complex_Main "HOL-Library.Sublist"
begin

section \<open>LyricMaker.jsx: the SRT parser and the keyframe generator\<close>

text \<open>
  The script is ExtendScript (ECMAScript 3) running inside After Effects. Its logic is three
  functions: \<open>parseTime\<close> (a timecode token to seconds), \<open>parseSRT\<close> (a transcript to a
  list of subtitles) and the click handler of the button, which writes the subtitles to the
  host as keyframes of one layer or as one layer per subtitle.

  Strings are lists of \<^typ>\<open>char\<close>: a character is one code unit, restricted to the 8-bit
  range. Numbers are IEEE 754 binary64 values.
\<close>

subsection \<open>Numbers\<close>

text \<open>
  A JavaScript number is NaN, an infinity or a finite binary64 value, kept as the rational
  it denotes. The two zeros are identified: the script only adds, subtracts, multiplies and
  compares, and none of these tells them apart.
\<close>

datatype jsnum = NaN | PInf | NInf | Fin rat

function bitlength :: "int \<Rightarrow> int" where
  "bitlength n = (if n \<le> 0 then 0 else 1 + bitlength (n div 2))"
  by pat_completeness auto
termination
  by (relation "measure nat") auto

declare bitlength.simps [simp del]

definition pow2 :: "int \<Rightarrow> rat" where
  "pow2 k = (if 0 \<le> k then 2 ^ nat k else 1 / 2 ^ nat (- k))"

text \<open>\<open>ilog2 a\<close> is the integer \<open>e\<close> with \<open>2^e \<le> a < 2^(e+1)\<close>, for a positive \<open>a\<close>.\<close>

definition ilog2 :: "rat \<Rightarrow> int" where
  "ilog2 a =
     (if 1 \<le> a then bitlength \<lfloor>a\<rfloor> - 1
      else let k = bitlength \<lfloor>1 / a\<rfloor>
           in if pow2 (1 - k) \<le> a then 1 - k else - k)"

definition round_half_even :: "rat \<Rightarrow> int" where
  "round_half_even x =
     (let f = \<lfloor>x\<rfloor>; d = x - of_int f
      in if d < 1 / 2 then f
         else if 1 / 2 < d then f + 1
         else if even f then f else f + 1)"

text \<open>
  Rounding of an exact result to binary64, to nearest with ties to even: 53 significant
  bits, least exponent -1022 (below it the spacing stays \<open>2^-1074\<close>), overflow to an
  infinity from \<open>2^1024\<close> on.
\<close>

definition fl :: "rat \<Rightarrow> jsnum" where
  "fl q =
     (if q = 0 then Fin 0
      else let a = \<bar>q\<bar>;
               e = max (ilog2 a) (- 1022);
               u = pow2 (e - 52);
               r = of_int (round_half_even (a / u)) * u
           in if pow2 1024 \<le> r then (if 0 < q then PInf else NInf)
              else Fin (if 0 < q then r else - r))"

fun js_neg :: "jsnum \<Rightarrow> jsnum" where
  "js_neg NaN = NaN"
| "js_neg PInf = NInf"
| "js_neg NInf = PInf"
| "js_neg (Fin a) = Fin (- a)"

fun js_add :: "jsnum \<Rightarrow> jsnum \<Rightarrow> jsnum" where
  "js_add NaN _ = NaN"
| "js_add _ NaN = NaN"
| "js_add PInf NInf = NaN"
| "js_add NInf PInf = NaN"
| "js_add PInf _ = PInf"
| "js_add _ PInf = PInf"
| "js_add NInf _ = NInf"
| "js_add _ NInf = NInf"
| "js_add (Fin a) (Fin b) = fl (a + b)"

definition js_sub :: "jsnum \<Rightarrow> jsnum \<Rightarrow> jsnum" where
  "js_sub x y = js_add x (js_neg y)"

definition inf_of_sign :: "rat \<Rightarrow> jsnum" where
  "inf_of_sign a = (if a = 0 then NaN else if 0 < a then PInf else NInf)"

fun js_mul :: "jsnum \<Rightarrow> jsnum \<Rightarrow> jsnum" where
  "js_mul NaN _ = NaN"
| "js_mul _ NaN = NaN"
| "js_mul PInf PInf = PInf"
| "js_mul PInf NInf = NInf"
| "js_mul NInf PInf = NInf"
| "js_mul NInf NInf = PInf"
| "js_mul PInf (Fin b) = inf_of_sign b"
| "js_mul NInf (Fin b) = inf_of_sign (- b)"
| "js_mul (Fin a) PInf = inf_of_sign a"
| "js_mul (Fin a) NInf = inf_of_sign (- a)"
| "js_mul (Fin a) (Fin b) = fl (a * b)"

text \<open>The comparisons \<open>x < y\<close>, \<open>x > y\<close> and \<open>x <= y\<close>: false as soon as one side is NaN.\<close>

fun js_lt :: "jsnum \<Rightarrow> jsnum \<Rightarrow> bool" where
  "js_lt NaN _ = False"
| "js_lt _ NaN = False"
| "js_lt _ NInf = False"
| "js_lt PInf _ = False"
| "js_lt NInf _ = True"
| "js_lt _ PInf = True"
| "js_lt (Fin a) (Fin b) = (a < b)"

definition js_gt :: "jsnum \<Rightarrow> jsnum \<Rightarrow> bool" where
  "js_gt x y = js_lt y x"

definition js_le :: "jsnum \<Rightarrow> jsnum \<Rightarrow> bool" where
  "js_le x y = (x \<noteq> NaN \<and> y \<noteq> NaN \<and> \<not> js_lt y x)"

subsection \<open>Characters and the string methods the script calls\<close>

definition is_digit :: "char \<Rightarrow> bool" where
  "is_digit c = (c \<in> set ''0123456789'')"

text \<open>
  The class \<open>\s\<close> of a regular expression, among 8-bit code units: tab, line feed,
  vertical tab, form feed, carriage return, space and the no-break space.
\<close>

definition is_space :: "char \<Rightarrow> bool" where
  "is_space c = (c \<in> {CHR 0x09, CHR 0x0A, CHR 0x0B, CHR 0x0C, CHR 0x0D, CHR 0x20, CHR 0xA0})"

definition digit_val :: "char \<Rightarrow> int" where
  "digit_val c = of_char c - 48"

definition digits_val :: "string \<Rightarrow> int" where
  "digits_val ds = foldl (\<lambda>a c. 10 * a + digit_val c) 0 ds"

text \<open>
  \<open>s.split(sep)\<close> for a non-empty string \<open>sep\<close>: the pieces between the occurrences of
  \<open>sep\<close>, found from left to right; the empty string gives one empty piece.
\<close>

function split_acc :: "string \<Rightarrow> string \<Rightarrow> string \<Rightarrow> string list" where
  "split_acc sep acc [] = [rev acc]"
| "split_acc sep acc (c # cs) =
     (if prefix sep (c # cs) then rev acc # split_acc sep [] (drop (length sep - 1) cs)
      else split_acc sep (c # acc) cs)"
  by pat_completeness auto
termination
  by (relation "measure (\<lambda>(sep, acc, s). length s)") auto

definition split :: "string \<Rightarrow> string \<Rightarrow> string list" where
  "split sep s = split_acc sep [] s"

text \<open>\<open>s.replace(a, b)\<close> for two one-character strings: only the first \<open>a\<close> is replaced.\<close>

fun replace_first :: "char \<Rightarrow> char \<Rightarrow> string \<Rightarrow> string" where
  "replace_first a b [] = []"
| "replace_first a b (c # cs) = (if c = a then b # cs else c # replace_first a b cs)"

text \<open>\<open>s.replace(/\s/g, '')\<close> removes every whitespace character.\<close>

definition strip_spaces :: "string \<Rightarrow> string" where
  "strip_spaces s = filter (\<lambda>c. \<not> is_space c) s"

text \<open>\<open>s.replace(/^\s+|\s+$/g, '')\<close> removes the whitespace at both ends.\<close>

definition trim :: "string \<Rightarrow> string" where
  "trim s = rev (dropWhile is_space (rev (dropWhile is_space s)))"

text \<open>
  \<open>raw.replace(/\r\n/g, "\n")\<close> and \<open>raw.replace(/\r/g, "\n")\<close>.
\<close>

fun replace_crlf :: "string \<Rightarrow> string" where
  "replace_crlf (a # b # cs) =
     (if a = CHR 0x0D \<and> b = CHR 0x0A then CHR 0x0A # replace_crlf cs
      else a # replace_crlf (b # cs))"
| "replace_crlf cs = cs"

definition replace_cr :: "string \<Rightarrow> string" where
  "replace_cr s = map (\<lambda>c. if c = CHR 0x0D then CHR 0x0A else c) s"

subsection \<open>The built-in \<open>parseFloat\<close>\<close>

text \<open>
  \<open>parseFloat\<close> skips leading whitespace and reads the longest prefix that is a decimal
  literal: an optional sign, then \<open>Infinity\<close>, or digits with an optional fraction and
  an optional exponent, or a fraction that starts with the point. With no such prefix the
  result is NaN. The value is the literal's exact value rounded to binary64.
\<close>

text \<open>The exponent part: \<open>e\<close> or \<open>E\<close>, an optional sign and at least one digit.\<close>

definition exponent_part :: "string \<Rightarrow> int" where
  "exponent_part r =
     (case r of
        [] \<Rightarrow> 0
      | c # r1 \<Rightarrow>
          if c = CHR ''e'' \<or> c = CHR ''E'' then
            (case r1 of
               [] \<Rightarrow> 0
             | s # r2 \<Rightarrow>
                 if s = CHR ''+'' \<or> s = CHR ''-'' then
                   (let ds = takeWhile is_digit r2
                    in if ds = [] then 0
                       else if s = CHR ''-'' then - digits_val ds else digits_val ds)
                 else digits_val (takeWhile is_digit r1))
          else 0)"

definition pow10 :: "int \<Rightarrow> rat" where
  "pow10 k = (if 0 \<le> k then 10 ^ nat k else 1 / 10 ^ nat (- k))"

definition decimal_value :: "string \<Rightarrow> string \<Rightarrow> string \<Rightarrow> jsnum" where
  "decimal_value ip fp r =
     fl ((of_int (digits_val ip) + of_int (digits_val fp) / 10 ^ length fp)
         * pow10 (exponent_part r))"

definition unsigned_literal :: "string \<Rightarrow> jsnum" where
  "unsigned_literal r =
     (if prefix ''Infinity'' r then PInf
      else let ip = takeWhile is_digit r; r1 = dropWhile is_digit r
           in case r1 of
                [] \<Rightarrow> if ip = [] then NaN else decimal_value ip [] r1
              | c # r2 \<Rightarrow>
                  if c = CHR ''.'' then
                    (let fp = takeWhile is_digit r2
                     in if ip = [] \<and> fp = [] then NaN
                        else decimal_value ip fp (dropWhile is_digit r2))
                  else if ip = [] then NaN else decimal_value ip [] r1)"

text \<open>The argument is converted to a string first: a missing value reads \<open>undefined\<close>.\<close>

definition parseFloat :: "string option \<Rightarrow> jsnum" where
  "parseFloat v =
     (case dropWhile is_space (case v of None \<Rightarrow> ''undefined'' | Some s \<Rightarrow> s) of
        [] \<Rightarrow> NaN
      | c # r \<Rightarrow>
          if c = CHR ''+'' then unsigned_literal r
          else if c = CHR ''-'' then js_neg (unsigned_literal r)
          else unsigned_literal (c # r))"

text \<open>\<open>parts[i]\<close>: an index past the end reads \<open>undefined\<close>.\<close>

definition at_index :: "'a list \<Rightarrow> nat \<Rightarrow> 'a option" where
  "at_index xs i = (if i < length xs then Some (xs ! i) else None)"

subsection \<open>\<open>parseTime\<close>\<close>

text \<open>
  \<^verbatim>\<open>
  function parseTime(timeString) {
      if (!timeString) return 0;
      timeString = timeString.replace(',', '.');
      var parts = timeString.split(':');
      var h = parseFloat(parts[0]);
      var m = parseFloat(parts[1]);
      var s = parseFloat(parts[2]);
      return (h * 3600) + (m * 60) + s;
  }
  \<close>
  The argument is \<open>None\<close> when it is missing (\<open>undefined\<close>); a missing value and the
  empty string are the two falsy arguments.
\<close>

definition parseTime :: "string option \<Rightarrow> jsnum" where
  "parseTime timeString =
     (case timeString of
        None \<Rightarrow> Fin 0
      | Some ts \<Rightarrow>
          if ts = [] then Fin 0
          else let parts = split '':'' (replace_first CHR '','' CHR ''.'' ts);
                   h = parseFloat (at_index parts 0);
                   m = parseFloat (at_index parts 1);
                   s = parseFloat (at_index parts 2)
               in js_add (js_add (js_mul h (Fin 3600)) (js_mul m (Fin 60))) s)"

subsection \<open>The two regular expressions of \<open>parseSRT\<close>\<close>

text \<open>
  Both patterns are sequences of character classes of fixed length, so a pattern is a list
  of predicates: \<open>match_here\<close> matches it at the front of a string and
  \<open>regex_search\<close> at any position, as \<open>String.match\<close> does for a pattern without
  anchors.
\<close>

fun match_here :: "(char \<Rightarrow> bool) list \<Rightarrow> string \<Rightarrow> bool" where
  "match_here [] s = True"
| "match_here (p # ps) [] = False"
| "match_here (p # ps) (c # cs) = (p c \<and> match_here ps cs)"

fun regex_search :: "(char \<Rightarrow> bool) list \<Rightarrow> string \<Rightarrow> bool" where
  "regex_search ps [] = match_here ps []"
| "regex_search ps (c # cs) = (match_here ps (c # cs) \<or> regex_search ps cs)"

definition is_sep :: "char \<Rightarrow> bool" where
  "is_sep c = (c = CHR '','' \<or> c = CHR ''.'')"

text \<open>\<open>\d{2}:\d{2}:\d{2}[,.]\d{3}\<close>\<close>

definition timecode_pattern :: "(char \<Rightarrow> bool) list" where
  "timecode_pattern =
     [is_digit, is_digit, (=) CHR '':'', is_digit, is_digit, (=) CHR '':'',
      is_digit, is_digit, is_sep, is_digit, is_digit, is_digit]"

text \<open>\<open>/\d{2}:\d{2}:\d{2}[,.]\d{3}\s-->\s\d{2}:\d{2}:\d{2}[,.]\d{3}/\<close>\<close>

definition timing_pattern :: "(char \<Rightarrow> bool) list" where
  "timing_pattern =
     timecode_pattern @ [is_space, (=) CHR ''-'', (=) CHR ''-'', (=) CHR ''>'', is_space]
       @ timecode_pattern"

definition is_timing_line :: "string \<Rightarrow> bool" where
  "is_timing_line line = regex_search timing_pattern line"

text \<open>\<open>/^\d+$/\<close>\<close>

definition is_index_line :: "string \<Rightarrow> bool" where
  "is_index_line line = (line \<noteq> [] \<and> list_all is_digit line)"

subsection \<open>\<open>parseSRT\<close>\<close>

record subtitle =
  sub_start :: jsnum
  sub_end :: jsnum
  sub_text :: string

text \<open>The only way the parser could throw: a method called on \<open>undefined\<close>.\<close>

datatype error = TypeError

text \<open>
  The state of the loop is the array \<open>subtitles\<close> and the variable \<open>currentSub\<close>
  (\<open>None\<close> for \<open>null\<close>). One iteration of the loop body:
  \<^verbatim>\<open>
  var line = lines[i].replace(/^\s+|\s+$/g, ''); // trim
  if (line.match(/^\d+$/) && !currentSub) { continue; }
  if (line.match(/\d{2}:\d{2}:\d{2}[,.]\d{3}\s-->\s\d{2}:\d{2}:\d{2}[,.]\d{3}/)) {
      var times = line.split('-->');
      currentSub = {
          start: parseTime(times[0].replace(/\s/g, '')),
          end: parseTime(times[1].replace(/\s/g, '')),
          text: ""
      };
      continue;
  }
  if (line === "") {
      if (currentSub) { subtitles.push(currentSub); currentSub = null; }
  } else {
      if (currentSub) { currentSub.text += (currentSub.text === "" ? "" : "\r") + line; }
  }
  \<close>
\<close>

type_synonym parser_state = "subtitle list \<times> subtitle option"

definition parse_line :: "parser_state \<Rightarrow> string \<Rightarrow> error + parser_state" where
  "parse_line st raw_line =
     (let subtitles = fst st; currentSub = snd st; line = trim raw_line
      in if is_index_line line \<and> currentSub = None then Inr st
         else if is_timing_line line then
           (let times = split ''-->'' line
            in case at_index times 0 of
                 None \<Rightarrow> Inl TypeError
               | Some t0 \<Rightarrow>
                   (case at_index times 1 of
                      None \<Rightarrow> Inl TypeError
                    | Some t1 \<Rightarrow>
                        Inr (subtitles,
                             Some \<lparr>sub_start = parseTime (Some (strip_spaces t0)),
                                   sub_end = parseTime (Some (strip_spaces t1)),
                                   sub_text = []\<rparr>)))
         else if line = [] then
           (case currentSub of
              None \<Rightarrow> Inr st
            | Some cur \<Rightarrow> Inr (subtitles @ [cur], None))
         else
           (case currentSub of
              None \<Rightarrow> Inr st
            | Some cur \<Rightarrow>
                Inr (subtitles,
                     Some (cur\<lparr>sub_text :=
                       sub_text cur @ (if sub_text cur = [] then [] else [CHR 0x0D]) @ line\<rparr>))))"

fun parse_lines :: "parser_state \<Rightarrow> string list \<Rightarrow> error + parser_state" where
  "parse_lines st [] = Inr st"
| "parse_lines st (l # ls) =
     (case parse_line st l of Inl e \<Rightarrow> Inl e | Inr st' \<Rightarrow> parse_lines st' ls)"

text \<open>
  \<^verbatim>\<open>var lines = rawData.replace(/\r\n/g, "\n").replace(/\r/g, "\n").split("\n");\<close>
\<close>

definition srt_lines :: "string \<Rightarrow> string list" where
  "srt_lines rawData = split [CHR 0x0A] (replace_cr (replace_crlf rawData))"

text \<open>After the loop: \<^verbatim>\<open>if (currentSub) subtitles.push(currentSub); return subtitles;\<close>\<close>

definition finish :: "parser_state \<Rightarrow> subtitle list" where
  "finish st = (case snd st of None \<Rightarrow> fst st | Some cur \<Rightarrow> fst st @ [cur])"

definition parseSRT :: "string \<Rightarrow> error + subtitle list" where
  "parseSRT rawData =
     (case parse_lines ([], None) (srt_lines rawData) of
        Inl e \<Rightarrow> Inl e
      | Inr st \<Rightarrow> Inr (finish st))"

subsection \<open>The click handler\<close>

text \<open>
  A keyframe is one call \<open>textProp.setValueAtTime(time, new TextDocument(text))\<close>; the
  handler's effect on the text property is the list of these calls, in order (the old keys
  are removed first). The loop of the first mode, with \<open>comp.frameDuration\<close> as
  \<open>minGap\<close>:
  \<^verbatim>\<open>
  for (var i = 0; i < subs.length; i++) {
      var s = subs[i];
      textProp.setValueAtTime(s.start, new TextDocument(s.text));
      var nextStart = (i < subs.length - 1) ? subs[i+1].start : 99999;
      if (nextStart - s.end > comp.frameDuration) {
           textProp.setValueAtTime(s.end, new TextDocument(""));
      }
  }
  \<close>
\<close>

type_synonym keyframe = "jsnum \<times> string"

definition nextStart :: "subtitle list \<Rightarrow> nat \<Rightarrow> jsnum" where
  "nextStart subs i =
     (if int i < int (length subs) - 1 then sub_start (subs ! (i + 1)) else Fin 99999)"

definition keys_of :: "subtitle list \<Rightarrow> jsnum \<Rightarrow> nat \<Rightarrow> keyframe list" where
  "keys_of subs minGap i =
     (let s = subs ! i
      in (sub_start s, sub_text s)
         # (if js_gt (js_sub (nextStart subs i) (sub_end s)) minGap then [(sub_end s, [])]
            else []))"

function build_loop :: "subtitle list \<Rightarrow> jsnum \<Rightarrow> nat \<Rightarrow> keyframe list \<Rightarrow> keyframe list" where
  "build_loop subs minGap i keys =
     (if i < length subs then build_loop subs minGap (i + 1) (keys @ keys_of subs minGap i)
      else keys)"
  by pat_completeness auto
termination
  by (relation "measure (\<lambda>(subs, minGap, i, keys). length subs - i)") auto

declare build_loop.simps [simp del]

definition build :: "subtitle list \<Rightarrow> jsnum \<Rightarrow> keyframe list" where
  "build subs minGap = build_loop subs minGap 0 []"

text \<open>
  The second mode makes one layer per subtitle:
  \<^verbatim>\<open>
  for (var i = 0; i < subs.length; i++) {
      var s = subs[i];
      var newLayer = templateLayer.duplicate();
      newLayer.name = "Sub_" + (i + 1);
      newLayer.inPoint = s.start;
      newLayer.outPoint = s.end;
      var textDoc = newLayer.property("Source Text").value;
      textDoc.text = s.text;
      newLayer.property("Source Text").setValue(textDoc);
      newLayer.moveToBeginning();
  }
  \<close>
  The layers are listed in the order of their creation.
\<close>

record layer =
  layer_name :: string
  inPoint :: jsnum
  outPoint :: jsnum
  layer_text :: string

function decimal :: "nat \<Rightarrow> string" where
  "decimal n =
     (if n < 10 then [char_of (48 + n)] else decimal (n div 10) @ [char_of (48 + n mod 10)])"
  by pat_completeness auto
termination
  by (relation "measure id") auto

declare decimal.simps [simp del]

definition layer_of :: "subtitle list \<Rightarrow> nat \<Rightarrow> layer" where
  "layer_of subs i =
     (let s = subs ! i
      in \<lparr>layer_name = ''Sub_'' @ decimal (i + 1), inPoint = sub_start s,
          outPoint = sub_end s, layer_text = sub_text s\<rparr>)"

definition layers :: "subtitle list \<Rightarrow> layer list" where
  "layers subs = map (layer_of subs) [0..<length subs]"

text \<open>
  The handler. The host is present through what the handler reads from it: whether the
  active item is a composition, whether exactly one text layer is selected, the text of the
  input field, the chosen mode and the frame duration of the composition. It shows one of
  three alerts and returns, or parses the text and generates.
  \<^verbatim>\<open>
  if (!(comp instanceof CompItem)) { alert(...); return; }
  if (selectedLayers.length !== 1 || !(selectedLayers[0] instanceof TextLayer)) {
      alert(...); return;
  }
  var rawSRT = srtInput.text;
  if (rawSRT.length < 10) { alert(...); return; }
  var subs = parseSRT(rawSRT);
  if (modeRadio1.value) { ... } else { ... }
  \<close>
\<close>

datatype alert = SelectComposition | SelectOneTextLayer | PasteSrtText

datatype outcome =
    Alert alert
  | Thrown error
  | Keyframes "keyframe list"
  | Layers "layer list"

definition btnGenerate_onClick :: "bool \<Rightarrow> bool \<Rightarrow> string \<Rightarrow> bool \<Rightarrow> jsnum \<Rightarrow> outcome" where
  "btnGenerate_onClick is_comp one_text_layer rawSRT modeRadio1 frameDuration =
     (if \<not> is_comp then Alert SelectComposition
      else if \<not> one_text_layer then Alert SelectOneTextLayer
      else if length rawSRT < 10 then Alert PasteSrtText
      else case parseSRT rawSRT of
             Inl e \<Rightarrow> Thrown e
           | Inr subs \<Rightarrow>
               if modeRadio1 then Keyframes (build subs frameDuration)
               else Layers (layers subs))"

subsection \<open>Vocabulary of the specification\<close>

text \<open>
  The spec speaks of timecode tokens \<open>HH:MM:SS,mmm\<close> or \<open>HH:MM:SS.mmm\<close>, of text lines
  joined with a separator and of well-formed blocks. These notions are not functions of the
  script; they are defined here from the spec's words, to state its claims.
\<close>

definition is_timecode :: "string \<Rightarrow> bool" where
  "is_timecode tok = (length tok = 12 \<and> match_here timecode_pattern tok)"

fun join_cr :: "string list \<Rightarrow> string" where
  "join_cr [] = []"
| "join_cr [x] = x"
| "join_cr (x # y # ys) = x @ [CHR 0x0D] @ join_cr (y # ys)"








section \<open>Evaluation of the number model\<close>

lemma bitlength_numeral:
  "bitlength 0 = 0"
  "bitlength 1 = 1"
  "bitlength (numeral (Num.Bit0 k)) = 1 + bitlength (numeral k)"
  "bitlength (numeral (Num.Bit1 k)) = 1 + bitlength (numeral k)"
  by (subst bitlength.simps, simp)+

lemma floor_rat_numeral:
  "\<lfloor>numeral a / numeral b :: rat\<rfloor> = numeral a div numeral b"
  "\<lfloor>1 / numeral b :: rat\<rfloor> = 1 div numeral b"
  by (metis floor_divide_of_int_eq of_int_numeral of_int_1)+

lemmas fl_eval = fl_def ilog2_def pow2_def round_half_even_def bitlength_numeral
  floor_rat_numeral Let_def

lemmas parseFloat_eval = parseFloat_def unsigned_literal_def decimal_value_def
  exponent_part_def pow10_def digits_val_def digit_val_def is_digit_def is_space_def

lemmas parseTime_eval = parseTime_def split_def at_index_def parseFloat_eval fl_eval

text \<open>The integers below \<open>2^53\<close> are binary64 numbers: rounding leaves them as they are.\<close>

lemma bitlength_bounds:
  "0 < n \<Longrightarrow> 0 < bitlength n \<and> 2 ^ nat (bitlength n - 1) \<le> n \<and> n < 2 ^ nat (bitlength n)"
proof (induction n rule: bitlength.induct)
  case (1 n)
  show ?case
  proof (cases "n = 1")
    case True
    then show ?thesis
      by (simp add: bitlength_numeral)
  next
    case False
    with "1.prems" have m: "0 < n div 2"
      by simp
    from "1.prems" have "\<not> n \<le> 0"
      by simp
    from "1.IH" [OF this m] have k: "0 < bitlength (n div 2)"
      and lo: "2 ^ nat (bitlength (n div 2) - 1) \<le> n div 2"
      and hi: "n div 2 < 2 ^ nat (bitlength (n div 2))"
      by simp_all
    have b: "bitlength n = 1 + bitlength (n div 2)"
      using "1.prems" by (subst bitlength.simps) simp
    have e: "nat (bitlength (n div 2)) = Suc (nat (bitlength (n div 2) - 1))"
      using k by simp
    have "2 * (n div 2) \<le> n" "n \<le> 2 * (n div 2) + 1"
      by simp_all
    moreover have "(2::int) ^ nat (bitlength (n div 2)) \<le> 2 * (n div 2)"
      using lo by (subst e) simp
    moreover have "2 * (n div 2) + 1 < (2::int) ^ Suc (nat (bitlength (n div 2)))"
      using hi by simp
    ultimately show ?thesis
      using k by (simp add: b nat_add_distrib)
  qed
qed

lemma round_half_even_int: "round_half_even (of_int z) = z"
  by (simp add: round_half_even_def)

lemma fl_int:
  assumes "0 \<le> n" "n < 2 ^ 53"
  shows "fl (of_int n) = Fin (of_int n)"
proof (cases "n = 0")
  case True
  then show ?thesis
    by (simp add: fl_def)
next
  case False
  with assms have pos: "0 < n"
    by simp
  define e where "e = bitlength n - 1"
  from bitlength_bounds [OF pos] have e0: "0 \<le> e" and lo: "2 ^ nat e \<le> n"
    by (simp_all add: e_def)
  from lo assms(2) have "(2::int) ^ nat e < 2 ^ 53"
    by (rule le_less_trans)
  then have "nat e < 53"
    by (rule power_less_imp_less_exp [rotated]) simp
  with e0 have e52: "e \<le> 52"
    by simp
  define d where "d = nat (52 - e)"
  have "(1::rat) \<le> of_int n"
    using pos by simp
  then have il: "ilog2 (of_int n) = e"
    by (simp add: ilog2_def e_def)
  have u: "pow2 (e - 52) = 1 / 2 ^ d"
    using e52 by (cases "e = 52") (simp_all add: pow2_def d_def)
  have "rat_of_int n * 2 ^ d = of_int (n * 2 ^ d)"
    by simp
  then have r: "round_half_even (rat_of_int n * 2 ^ d) = n * 2 ^ d"
    by (simp only: round_half_even_int)
  have "rat_of_int n < 2 ^ 1024"
  proof -
    have "rat_of_int n < of_int (2 ^ 53)"
      using assms(2) by (simp only: of_int_less_iff)
    also have "\<dots> \<le> 2 ^ 1024"
      by simp
    finally show ?thesis .
  qed
  then have big: "\<not> pow2 1024 \<le> rat_of_int n"
    by (simp add: pow2_def)
  have m: "max e (- 1022) = e"
    using e0 by simp
  show ?thesis
    using pos big by (simp add: fl_def Let_def il m u r)
qed

section \<open>Strings, patterns and the loop of the parser\<close>

subsection \<open>Whitespace\<close>

lemma trim_Nil [simp]: "trim [] = []"
  by (simp add: trim_def)

lemma trim_all_space: "list_all is_space s \<Longrightarrow> trim s = []"
proof -
  assume "list_all is_space s"
  then have d: "dropWhile is_space s = []"
    by (simp add: list_all_iff)
  show ?thesis
    by (simp only: trim_def d rev.simps dropWhile.simps)
qed

lemma dropWhile_ident: "xs \<noteq> [] \<Longrightarrow> \<not> P (hd xs) \<Longrightarrow> dropWhile P xs = xs"
  by (cases xs) auto

lemma trim_no_space_ends:
  assumes "trim s \<noteq> []"
  shows "\<not> is_space (hd (trim s))" and "\<not> is_space (last (trim s))"
proof -
  define u where "u = dropWhile is_space s"
  define v where "v = dropWhile is_space (rev u)"
  have t: "trim s = rev v"
    by (simp add: trim_def u_def v_def)
  with assms have v: "v \<noteq> []"
    by simp
  then have "\<not> is_space (hd v)"
    unfolding v_def by (rule hd_dropWhile)
  then show "\<not> is_space (last (trim s))"
    using v by (simp add: t last_rev)
  from v have u: "u \<noteq> []"
    by (auto simp: v_def)
  then have hu: "\<not> is_space (hd u)"
    unfolding u_def by (rule hd_dropWhile)
  have "\<exists>w. rev u = w @ v"
    unfolding v_def by (metis takeWhile_dropWhile_id)
  then obtain w where "rev u = w @ v" ..
  then have "last v = last (rev u)"
    using v by simp
  then have "last v = hd u"
    using u by (simp add: last_rev)
  then show "\<not> is_space (hd (trim s))"
    using hu v by (simp add: t hd_rev)
qed

lemma trim_ident:
  assumes "s \<noteq> []" "\<not> is_space (hd s)" "\<not> is_space (last s)"
  shows "trim s = s"
proof -
  from assms have "dropWhile is_space s = s"
    by (simp add: dropWhile_ident)
  moreover from assms have "dropWhile is_space (rev s) = rev s"
    by (simp add: dropWhile_ident hd_rev)
  ultimately show ?thesis
    by (simp add: trim_def)
qed

lemma trim_idem: "trim (trim s) = trim s"
proof (cases "trim s = []")
  case True
  then show ?thesis by simp
next
  case False
  then show ?thesis
    by (intro trim_ident trim_no_space_ends)
qed

subsection \<open>Classes of characters\<close>

lemma digit_not_other:
  assumes "is_digit c"
  shows "\<not> is_space c" "c \<noteq> CHR '':''" "c \<noteq> CHR ''-''" "c \<noteq> CHR '',''" "c \<noteq> CHR ''.''"
    "c \<noteq> CHR 0x0A" "c \<noteq> CHR 0x0D" "c \<noteq> CHR ''>''" "\<not> is_sep c"
  using assms by (auto simp: is_digit_def is_space_def is_sep_def)

lemma match_here_Cons:
  "match_here (p # ps) s = (\<exists>c cs. s = c # cs \<and> p c \<and> match_here ps cs)"
  by (cases s) auto

lemma regex_search_suffix:
  "regex_search ps s \<Longrightarrow> \<exists>pre rest. s = pre @ rest \<and> match_here ps rest"
proof (induction s)
  case Nil
  then show ?case by simp
next
  case (Cons c cs)
  show ?case
  proof (cases "match_here ps (c # cs)")
    case True
    then show ?thesis by (metis append_Nil)
  next
    case False
    with Cons.prems have "regex_search ps cs" by simp
    with Cons.IH obtain pre rest where "cs = pre @ rest" "match_here ps rest" by blast
    then show ?thesis by (metis append_Cons)
  qed
qed

lemma regex_search_append:
  "match_here ps rest \<Longrightarrow> regex_search ps (pre @ rest)"
  by (induction pre) (auto, cases rest, auto)

lemma timing_line_shape:
  assumes "is_timing_line line"
  shows "\<exists>pre a w1 w2 b post. line = pre @ a @ [w1] @ ''-->'' @ [w2] @ b @ post
           \<and> match_here timecode_pattern a \<and> length a = 12 \<and> is_space w1 \<and> is_space w2
           \<and> match_here timecode_pattern b \<and> length b = 12"
proof -
  from assms obtain pre rest where l: "line = pre @ rest" and m: "match_here timing_pattern rest"
    unfolding is_timing_line_def by (blast dest: regex_search_suffix)
  from m obtain a0 a1 a2 a3 a4 a5 a6 a7 a8 a9 a10 a11 w1 w2 b0 b1 b2 b3 b4 b5 b6 b7 b8 b9 b10 b11 post
    where r: "rest = [a0, a1, a2, a3, a4, a5, a6, a7, a8, a9, a10, a11] @ [w1] @ ''-->'' @ [w2]
                  @ [b0, b1, b2, b3, b4, b5, b6, b7, b8, b9, b10, b11] @ post"
      and "match_here timecode_pattern [a0, a1, a2, a3, a4, a5, a6, a7, a8, a9, a10, a11]"
      and "is_space w1" "is_space w2"
      and "match_here timecode_pattern [b0, b1, b2, b3, b4, b5, b6, b7, b8, b9, b10, b11]"
    unfolding timing_pattern_def timecode_pattern_def
    by (auto simp: match_here_Cons)
  then show ?thesis
    using l by (intro exI [of _ pre] exI [of _ "[a0, a1, a2, a3, a4, a5, a6, a7, a8, a9, a10, a11]"]
       exI [of _ w1] exI [of _ w2] exI [of _ "[b0, b1, b2, b3, b4, b5, b6, b7, b8, b9, b10, b11]"]
       exI [of _ post]) simp
qed

subsection \<open>\<open>split\<close>\<close>

lemma split_acc_not_Nil: "split_acc sep acc s \<noteq> []"
  by (induction sep acc s rule: split_acc.induct) auto

lemma split_acc_no_sep:
  "c0 \<notin> set a \<Longrightarrow> split_acc (c0 # sep) acc a = [rev acc @ a]"
  by (induction a arbitrary: acc) auto

lemma split_acc_first:
  "c0 \<notin> set a \<Longrightarrow>
   split_acc (c0 # sep) acc (a @ (c0 # sep) @ r) = (rev acc @ a) # split_acc (c0 # sep) [] r"
  by (induction a arbitrary: acc) auto

lemma split_no_sep: "c0 \<notin> set a \<Longrightarrow> split (c0 # sep) a = [a]"
  by (simp add: split_def split_acc_no_sep)

lemma split_first:
  "c0 \<notin> set a \<Longrightarrow> split (c0 # sep) (a @ (c0 # sep) @ r) = a # split (c0 # sep) r"
  using split_acc_first [of c0 a sep "[]" r] by (simp add: split_def)

lemma split_acc_two:
  "\<exists>t0 t1 ts. split_acc (c0 # sep) acc (a @ (c0 # sep) @ r) = t0 # t1 # ts"
proof (induction a arbitrary: acc)
  case Nil
  obtain t1 ts where "split_acc (c0 # sep) [] r = t1 # ts"
    using split_acc_not_Nil by (meson neq_Nil_conv)
  then show ?case by simp
next
  case (Cons x a)
  define rest where "rest = a @ (c0 # sep) @ r"
  have "\<exists>t0 t1 ts. split_acc (c0 # sep) acc (x # rest) = t0 # t1 # ts"
  proof (cases "prefix (c0 # sep) (x # rest)")
    case True
    then have "split_acc (c0 # sep) acc (x # rest)
        = rev acc # split_acc (c0 # sep) [] (drop (length (c0 # sep) - 1) rest)"
      by (simp only: split_acc.simps if_True)
    moreover obtain t1 ts where
      "split_acc (c0 # sep) [] (drop (length (c0 # sep) - 1) rest) = t1 # ts"
      using split_acc_not_Nil by (meson neq_Nil_conv)
    ultimately show ?thesis by simp
  next
    case False
    then have "split_acc (c0 # sep) acc (x # rest) = split_acc (c0 # sep) (x # acc) rest"
      by (simp only: split_acc.simps if_False)
    with Cons.IH [of "x # acc"] show ?thesis
      by (simp add: rest_def)
  qed
  then show ?case
    by (simp add: rest_def)
qed

lemma timing_line_split:
  assumes "is_timing_line line"
  shows "\<exists>t0 t1 ts. split ''-->'' line = t0 # t1 # ts"
proof -
  from timing_line_shape [OF assms] obtain pre a w1 w2 b post
    where "line = (pre @ a @ [w1]) @ ''-->'' @ ([w2] @ b @ post)"
    by auto
  then show ?thesis
    unfolding split_def using split_acc_two [of "CHR ''-''" "''->''" "[]" "pre @ a @ [w1]"]
    by simp
qed

lemma timing_line_colon:
  assumes "is_timing_line line"
  shows "CHR '':'' \<in> set line"
proof -
  from timing_line_shape [OF assms] obtain pre a w1 w2 b post
    where l: "line = pre @ a @ [w1] @ ''-->'' @ [w2] @ b @ post"
      and a: "match_here timecode_pattern a"
    by blast
  from a have "CHR '':'' \<in> set a"
    by (auto simp: timecode_pattern_def match_here_Cons)
  with l show ?thesis by simp
qed

lemma index_line_not_timing: "is_index_line line \<Longrightarrow> \<not> is_timing_line line"
  using timing_line_colon [of line]
  by (auto simp: is_index_line_def list_all_iff dest: digit_not_other(2))

subsection \<open>The loop over the lines\<close>


lemma parse_line_text:
  assumes "trim l \<noteq> []" "\<not> is_timing_line (trim l)"
  shows "parse_line (subtitles, Some cur) l =
     Inr (subtitles, Some (cur\<lparr>sub_text :=
       sub_text cur @ (if sub_text cur = [] then [] else [CHR 0x0D]) @ trim l\<rparr>))"
  using assms by (simp add: parse_line_def)

lemma parse_line_blank:
  assumes "trim l = []"
  shows "parse_line (subtitles, Some cur) l = Inr (subtitles @ [cur], None)"
    and "parse_line (subtitles, None) l = Inr (subtitles, None)"
proof -
  have "\<not> is_timing_line []"
    by (simp add: is_timing_line_def timing_pattern_def timecode_pattern_def)
  then show "parse_line (subtitles, Some cur) l = Inr (subtitles @ [cur], None)"
    and "parse_line (subtitles, None) l = Inr (subtitles, None)"
    using assms by (simp_all add: parse_line_def is_index_line_def)
qed

lemma parse_line_timing:
  assumes "is_timing_line (trim l)"
  shows "\<exists>t0 t1 ts. split ''-->'' (trim l) = t0 # t1 # ts
     \<and> parse_line (subtitles, currentSub) l =
         Inr (subtitles, Some \<lparr>sub_start = parseTime (Some (strip_spaces t0)),
                               sub_end = parseTime (Some (strip_spaces t1)), sub_text = []\<rparr>)"
proof -
  from timing_line_split [OF assms] obtain t0 t1 ts
    where s: "split ''-->'' (trim l) = t0 # t1 # ts"
    by blast
  moreover have "\<not> is_index_line (trim l)"
    using assms index_line_not_timing by blast
  ultimately show ?thesis
    using assms by (simp add: parse_line_def at_index_def)
qed

section \<open>The keyframes of the first mode\<close>

lemma build_loop_concat:
  "i \<le> length subs \<Longrightarrow>
   build_loop subs minGap i keys = keys @ concat (map (keys_of subs minGap) [i..<length subs])"
proof (induction subs minGap i keys rule: build_loop.induct)
  case (1 subs minGap i keys)
  show ?case
  proof (cases "i < length subs")
    case True
    then have "build_loop subs minGap i keys
        = build_loop subs minGap (i + 1) (keys @ keys_of subs minGap i)"
      by (subst build_loop.simps) simp
    also have "\<dots> = (keys @ keys_of subs minGap i)
        @ concat (map (keys_of subs minGap) [i + 1..<length subs])"
      using True by (intro "1.IH") simp_all
    finally show ?thesis
      using True by (simp add: upt_conv_Cons)
  next
    case False
    then show ?thesis
      by (subst build_loop.simps) simp
  qed
qed

lemma build_concat:
  "build subs minGap = concat (map (keys_of subs minGap) [0..<length subs])"
  using build_loop_concat [of 0 subs minGap "[]"] by (simp add: build_def)

lemma js_lt_irrefl: "\<not> js_lt x x"
  by (cases x) simp_all

lemma fl_exact_values:
  "fl 0 = Fin 0"
  "fl (1 / 2) = Fin (1 / 2)"
  "fl 99995 = Fin 99995"
  "fl 99996 = Fin 99996"
  by (simp_all add: fl_eval)

text \<open>
  C4. For every list of subtitles and every \<open>minGap\<close>, the keyframes are, subtitle by
  subtitle, the subtitle's text at its start and then the empty text at its end exactly
  when \<open>nextStart - end > minGap\<close>, where \<open>nextStart\<close> is the start of the next
  subtitle, or 99999 after the last one. The comparison is strict: a gap equal to
  \<open>minGap\<close> gives no empty keyframe.
\<close>

theorem build_clear_iff:
  "build subs minGap =
     concat (map (\<lambda>i. (sub_start (subs ! i), sub_text (subs ! i))
                      # (if js_gt (js_sub (nextStart subs i) (sub_end (subs ! i))) minGap
                         then [(sub_end (subs ! i), [])] else []))
                 [0..<length subs])
   \<and> (\<forall>i<length subs. js_sub (nextStart subs i) (sub_end (subs ! i)) = minGap \<longrightarrow>
          \<not> js_gt (js_sub (nextStart subs i) (sub_end (subs ! i))) minGap)"
proof -
  have "keys_of subs minGap =
      (\<lambda>i. (sub_start (subs ! i), sub_text (subs ! i))
            # (if js_gt (js_sub (nextStart subs i) (sub_end (subs ! i))) minGap
               then [(sub_end (subs ! i), [])] else []))"
    by (rule ext) (simp add: keys_of_def Let_def)
  then have "build subs minGap =
      concat (map (\<lambda>i. (sub_start (subs ! i), sub_text (subs ! i))
                       # (if js_gt (js_sub (nextStart subs i) (sub_end (subs ! i))) minGap
                          then [(sub_end (subs ! i), [])] else []))
                  [0..<length subs])"
    by (simp add: build_concat)
  moreover have "\<not> js_gt minGap minGap"
    by (simp add: js_gt_def js_lt_irrefl)
  ultimately show ?thesis
    by simp
qed

text \<open>
  The gap between the two subtitles is one half and so is \<open>minGap\<close>: no empty keyframe
  between them; the last subtitle gets one.
\<close>

theorem build_clear_iff_witness:
  "(0::nat) < length [\<lparr>sub_start = Fin 1, sub_end = Fin 2, sub_text = ''a''\<rparr>,
                     \<lparr>sub_start = Fin (5 / 2), sub_end = Fin 4, sub_text = ''b''\<rparr>]
   \<and> js_sub (nextStart [\<lparr>sub_start = Fin 1, sub_end = Fin 2, sub_text = ''a''\<rparr>,
                        \<lparr>sub_start = Fin (5 / 2), sub_end = Fin 4, sub_text = ''b''\<rparr>] 0)
        (Fin 2) = Fin (1 / 2)
   \<and> build [\<lparr>sub_start = Fin 1, sub_end = Fin 2, sub_text = ''a''\<rparr>,
            \<lparr>sub_start = Fin (5 / 2), sub_end = Fin 4, sub_text = ''b''\<rparr>] (Fin (1 / 2))
       = [(Fin 1, ''a''), (Fin (5 / 2), ''b''), (Fin 4, [])]"
  using build_clear_iff [of "[\<lparr>sub_start = Fin 1, sub_end = Fin 2, sub_text = ''a''\<rparr>,
            \<lparr>sub_start = Fin (5 / 2), sub_end = Fin 4, sub_text = ''b''\<rparr>]" "Fin (1 / 2)"]
  by (simp add: nextStart_def js_sub_def js_gt_def fl_exact_values upt_rec)

text \<open>
  C2, as stated. The spec's two examples leave out the last subtitle's empty keyframe: the
  lists they give are not what the loop produces.
\<close>

theorem build_examples_counterexample:
  "build [\<lparr>sub_start = Fin 1, sub_end = Fin 2, sub_text = ''a''\<rparr>,
          \<lparr>sub_start = Fin (5 / 2), sub_end = Fin 4, sub_text = ''b''\<rparr>] (fl (1 / 10))
     \<noteq> [(Fin 1, ''a''), (Fin 2, []), (Fin (5 / 2), ''b'')]
   \<and> build [\<lparr>sub_start = Fin 1, sub_end = Fin 2, sub_text = ''a''\<rparr>,
            \<lparr>sub_start = Fin 2, sub_end = Fin 3, sub_text = ''b''\<rparr>] (fl (1 / 10))
     \<noteq> [(Fin 1, ''a''), (Fin 2, ''b'')]"
  by (simp add: build_concat keys_of_def nextStart_def js_sub_def js_gt_def fl_eval upt_rec)

text \<open>
  C2, amended. With \<open>minGap = 0.1\<close> the subtitles \<open>{1, 2, "a"}\<close> and
  \<open>{2.5, 4, "b"}\<close> give the four keyframes \<open>{1, "a"}\<close>, \<open>{2, ""}\<close>,
  \<open>{2.5, "b"}\<close>, \<open>{4, ""}\<close>. With any positive \<open>minGap\<close> the subtitles
  \<open>{1, 2, "a"}\<close> and \<open>{2, 3, "b"}\<close> give \<open>{1, "a"}\<close>, \<open>{2, "b"}\<close> with
  no empty keyframe between them, followed by \<open>{3, ""}\<close> when \<open>99999 - 3 > minGap\<close>:
  after the last subtitle \<open>nextStart\<close> is the constant 99999, so the last subtitle is
  cleared at its end.
\<close>

theorem build_examples:
  "build [\<lparr>sub_start = Fin 1, sub_end = Fin 2, sub_text = ''a''\<rparr>,
          \<lparr>sub_start = Fin (5 / 2), sub_end = Fin 4, sub_text = ''b''\<rparr>] (fl (1 / 10))
     = [(Fin 1, ''a''), (Fin 2, []), (Fin (5 / 2), ''b''), (Fin 4, [])]
   \<and> (js_gt minGap (Fin 0) \<longrightarrow>
        build [\<lparr>sub_start = Fin 1, sub_end = Fin 2, sub_text = ''a''\<rparr>,
               \<lparr>sub_start = Fin 2, sub_end = Fin 3, sub_text = ''b''\<rparr>] minGap
          = [(Fin 1, ''a''), (Fin 2, ''b'')]
            @ (if js_gt (js_sub (Fin 99999) (Fin 3)) minGap then [(Fin 3, [])] else []))"
proof -
  have "\<not> js_gt (Fin 0) minGap" if "js_gt minGap (Fin 0)"
    using that by (cases minGap) (simp_all add: js_gt_def)
  then show ?thesis
    by (simp add: build_concat keys_of_def nextStart_def js_sub_def fl_eval upt_rec)
      (simp add: js_gt_def)
qed

theorem build_examples_witness:
  "js_gt (fl (1 / 10)) (Fin 0)
   \<and> build [\<lparr>sub_start = Fin 1, sub_end = Fin 2, sub_text = ''a''\<rparr>,
            \<lparr>sub_start = Fin 2, sub_end = Fin 3, sub_text = ''b''\<rparr>] (fl (1 / 10))
       = [(Fin 1, ''a''), (Fin 2, ''b''), (Fin 3, [])]"
  using build_examples [of "fl (1 / 10)"]
  by (simp add: js_gt_def js_sub_def fl_eval)

section \<open>The handler and an input without subtitles\<close>

lemmas parse_eval = parseSRT_def srt_lines_def replace_cr_def split_def parse_line_def trim_def
  is_index_line_def is_timing_line_def timing_pattern_def timecode_pattern_def is_sep_def
  is_digit_def is_space_def finish_def strip_spaces_def at_index_def Let_def

text \<open>
  C3, as stated. A text of 17 characters without any timing line parses to no subtitle,
  and the handler reports nothing: it generates an empty list of keyframes.
\<close>

theorem no_cues_counterexample:
  "parseSRT ''no subtitles here'' = Inr []
   \<and> btnGenerate_onClick True True ''no subtitles here'' True (fl (1 / 25)) = Keyframes []"
  by (simp add: btnGenerate_onClick_def build_concat parse_eval)

text \<open>
  C3, amended. When the parse yields no subtitle, the handler reports no error: it goes on
  and generates nothing (no keyframe in the first mode, no layer in the second). The only
  check of the text is made before the parse: a text of fewer than 10 characters is refused
  with an alert.
\<close>

theorem no_cues_no_error:
  "(10 \<le> length rawSRT \<and> parseSRT rawSRT = Inr [] \<longrightarrow>
      btnGenerate_onClick True True rawSRT modeRadio1 frameDuration
        = (if modeRadio1 then Keyframes [] else Layers []))
   \<and> (length rawSRT < 10 \<longrightarrow>
      btnGenerate_onClick True True rawSRT modeRadio1 frameDuration = Alert PasteSrtText)"
  by (simp add: btnGenerate_onClick_def build_concat layers_def)

theorem no_cues_no_error_witness:
  "(10::nat) \<le> length ''no subtitles here'' \<and> parseSRT ''no subtitles here'' = Inr []
   \<and> btnGenerate_onClick True True ''no subtitles here'' False (fl (1 / 25)) = Layers []
   \<and> length ''123'' < (10::nat)
   \<and> btnGenerate_onClick True True ''123'' False (fl (1 / 25)) = Alert PasteSrtText"
  using no_cues_no_error [of "''no subtitles here''" False "fl (1 / 25)"]
    no_cues_no_error [of "''123''" False "fl (1 / 25)"]
  by (simp add: parse_eval)

section \<open>The classification of one line\<close>

text \<open>
  C9. A line that is all digits (once trimmed) is appended to the text of the subtitle in
  progress, after a carriage return when that text is not empty; it is skipped as an index
  only when no subtitle is in progress.
\<close>

theorem numeric_line_in_cue:
  assumes "is_index_line (trim l)"
  shows "parse_line (subtitles, Some cur) l =
           Inr (subtitles, Some (cur\<lparr>sub_text :=
             sub_text cur @ (if sub_text cur = [] then [] else [CHR 0x0D]) @ trim l\<rparr>))
         \<and> parse_line (subtitles, None) l = Inr (subtitles, None)"
proof -
  from assms have "\<not> is_timing_line (trim l)" and "trim l \<noteq> []"
    by (simp_all add: index_line_not_timing is_index_line_def)
  then show ?thesis
    using assms by (simp add: parse_line_text) (simp add: parse_line_def)
qed

text \<open>The line \<open>123\<close>, with a subtitle in progress and without one.\<close>

theorem numeric_line_in_cue_witness:
  "is_index_line (trim ''123'')
   \<and> parse_line ([], Some \<lparr>sub_start = Fin 1, sub_end = Fin 2, sub_text = ''one''\<rparr>) ''123''
       = Inr ([], Some \<lparr>sub_start = Fin 1, sub_end = Fin 2,
                         sub_text = ''one'' @ [CHR 0x0D] @ ''123''\<rparr>)
   \<and> parse_line ([], None) ''123'' = Inr ([], None)"
  using numeric_line_in_cue [of "''123''" "[]" "\<lparr>sub_start = Fin 1, sub_end = Fin 2, sub_text = ''one''\<rparr>"]
  by (simp add: trim_def is_index_line_def is_digit_def is_space_def)

lemma join_cr_Cons: "join_cr (x # xs) = x @ (if xs = [] then [] else CHR 0x0D # join_cr xs)"
  by (cases xs) simp_all

lemma parse_lines_text:
  assumes "\<forall>t\<in>set ts. trim t \<noteq> [] \<and> \<not> is_timing_line (trim t)"
  shows "parse_lines (subtitles, Some cur) ts =
     Inr (subtitles, Some (cur\<lparr>sub_text :=
       (if sub_text cur = [] then join_cr (map trim ts)
        else join_cr (sub_text cur # map trim ts))\<rparr>))"
  using assms
proof (induction ts arbitrary: cur)
  case Nil
  then show ?case by simp
next
  case (Cons t ts)
  then have t: "trim t \<noteq> []" "\<not> is_timing_line (trim t)"
    by simp_all
  define cur' where "cur' = cur\<lparr>sub_text :=
       sub_text cur @ (if sub_text cur = [] then [] else [CHR 0x0D]) @ trim t\<rparr>"
  have "parse_lines (subtitles, Some cur) (t # ts) = parse_lines (subtitles, Some cur') ts"
    using t by (simp add: parse_line_text cur'_def)
  also have "\<dots> = Inr (subtitles, Some (cur'\<lparr>sub_text :=
       (if sub_text cur' = [] then join_cr (map trim ts)
        else join_cr (sub_text cur' # map trim ts))\<rparr>))"
    using Cons.prems by (intro Cons.IH) simp
  finally show ?case
    using t by (simp add: cur'_def join_cr_Cons)
qed

text \<open>
  C10. The loop classifies the trimmed line: a line and its trimmed form have the same
  effect. A line of whitespace only is a blank line: it pushes the subtitle in progress, and
  does nothing without one. The text of a subtitle opened by a timing line and followed by
  text lines is the trimmed lines joined with one carriage return, none before the first.
\<close>

theorem lines_trimmed_and_joined:
  "parse_line st (trim l) = parse_line st l
   \<and> (list_all is_space l \<longrightarrow>
        parse_line (subtitles, Some cur) l = Inr (subtitles @ [cur], None)
        \<and> parse_line (subtitles, None) l = Inr (subtitles, None))
   \<and> ((\<forall>t\<in>set ts. trim t \<noteq> [] \<and> \<not> is_timing_line (trim t)) \<longrightarrow>
        parse_lines (subtitles, Some (cur\<lparr>sub_text := []\<rparr>)) ts
          = Inr (subtitles, Some (cur\<lparr>sub_text := join_cr (map trim ts)\<rparr>)))"
proof (intro conjI impI)
  show "parse_line st (trim l) = parse_line st l"
    by (simp add: parse_line_def trim_idem)
next
  assume "list_all is_space l"
  then have "trim l = []"
    by (rule trim_all_space)
  then show "parse_line (subtitles, Some cur) l = Inr (subtitles @ [cur], None)"
    and "parse_line (subtitles, None) l = Inr (subtitles, None)"
    by (rule parse_line_blank)+
next
  assume "\<forall>t\<in>set ts. trim t \<noteq> [] \<and> \<not> is_timing_line (trim t)"
  then show "parse_lines (subtitles, Some (cur\<lparr>sub_text := []\<rparr>)) ts
          = Inr (subtitles, Some (cur\<lparr>sub_text := join_cr (map trim ts)\<rparr>))"
    by (simp add: parse_lines_text)
qed

theorem lines_trimmed_and_joined_witness:
  "list_all is_space [CHR 0x20, CHR 0x09]
   \<and> parse_line ([], Some \<lparr>sub_start = Fin 1, sub_end = Fin 2, sub_text = ''a''\<rparr>)
         [CHR 0x20, CHR 0x09]
       = Inr ([\<lparr>sub_start = Fin 1, sub_end = Fin 2, sub_text = ''a''\<rparr>], None)
   \<and> trim '' one'' \<noteq> [] \<and> \<not> is_timing_line (trim '' one'')
   \<and> trim ''2 '' \<noteq> [] \<and> \<not> is_timing_line (trim ''2 '')
   \<and> parse_lines ([], Some \<lparr>sub_start = Fin 1, sub_end = Fin 2, sub_text = []\<rparr>)
         ['' one'', ''2 '']
       = Inr ([], Some \<lparr>sub_start = Fin 1, sub_end = Fin 2,
                         sub_text = ''one'' @ [CHR 0x0D] @ ''2''\<rparr>)"
proof -
  have ws: "list_all is_space [CHR 0x20, CHR 0x09]"
    by (simp add: is_space_def)
  have tr: "trim '' one'' = ''one''" "trim ''2 '' = ''2''"
    by (simp_all add: trim_def is_space_def)
  have "\<not> is_timing_line ''one''" "\<not> is_timing_line ''2''"
    by (simp_all add: is_timing_line_def timing_pattern_def timecode_pattern_def is_sep_def
        is_digit_def is_space_def)
  then have tl: "\<forall>t\<in>set ['' one'', ''2 '']. trim t \<noteq> [] \<and> \<not> is_timing_line (trim t)"
    by (simp add: tr)
  have "parse_line ([], Some \<lparr>sub_start = Fin 1, sub_end = Fin 2, sub_text = ''a''\<rparr>)
         [CHR 0x20, CHR 0x09]
       = Inr ([\<lparr>sub_start = Fin 1, sub_end = Fin 2, sub_text = ''a''\<rparr>], None)"
    using lines_trimmed_and_joined [of "([], None)" "[CHR 0x20, CHR 0x09]" "[]"
      "\<lparr>sub_start = Fin 1, sub_end = Fin 2, sub_text = ''a''\<rparr>" "[]"] ws
    by simp
  moreover have "parse_lines ([], Some \<lparr>sub_start = Fin 1, sub_end = Fin 2, sub_text = []\<rparr>)
         ['' one'', ''2 '']
       = Inr ([], Some \<lparr>sub_start = Fin 1, sub_end = Fin 2,
                         sub_text = join_cr (map trim ['' one'', ''2 ''])\<rparr>)"
    using lines_trimmed_and_joined [of "([], None)" "[]" "[]"
      "\<lparr>sub_start = Fin 1, sub_end = Fin 2, sub_text = ''a''\<rparr>" "['' one'', ''2 '']"] tl
    by simp
  ultimately show ?thesis
    using ws tl by (simp add: tr del: parse_lines.simps)
qed

section \<open>Timing lines\<close>

lemma timecode_explicit_ex:
  assumes "is_timecode a"
  shows "\<exists>h1 h2 m1 m2 s1 s2 sep f1 f2 f3.
    a = [h1, h2, CHR '':'', m1, m2, CHR '':'', s1, s2, sep, f1, f2, f3]
    \<and> is_digit h1 \<and> is_digit h2 \<and> is_digit m1 \<and> is_digit m2 \<and> is_digit s1 \<and> is_digit s2
    \<and> is_sep sep \<and> is_digit f1 \<and> is_digit f2 \<and> is_digit f3"
  using assms unfolding is_timecode_def timecode_pattern_def
  by (clarsimp simp: match_here_Cons)

lemma space_not_other:
  assumes "is_space c"
  shows "c \<noteq> CHR ''-''" "c \<noteq> CHR '':''" "\<not> is_digit c"
  using assms by (auto simp: is_space_def is_digit_def)

lemma timecode_char_cases:
  assumes "is_timecode a" "c \<in> set a"
  shows "is_digit c \<or> c = CHR '':'' \<or> is_sep c"
  using timecode_explicit_ex [OF assms(1)] assms(2) by auto

lemma plain_char:
  assumes "is_digit c \<or> c = CHR '':'' \<or> is_sep c"
  shows "\<not> is_space c \<and> c \<noteq> CHR ''-'' \<and> c \<noteq> CHR 0x0A \<and> c \<noteq> CHR 0x0D"
  using assms by (auto simp: is_digit_def is_sep_def is_space_def)

lemma timecode_ends:
  assumes "is_timecode a"
  shows "a \<noteq> []" and "is_digit (hd a)" and "is_digit (last a)"
  using timecode_explicit_ex [OF assms] by auto

lemma timecode_chars:
  assumes "is_timecode a"
  shows "\<forall>c\<in>set a. \<not> is_space c \<and> c \<noteq> CHR ''-'' \<and> c \<noteq> CHR 0x0A \<and> c \<noteq> CHR 0x0D"
  using timecode_char_cases [OF assms] plain_char by blast

lemma match_here_append:
  "length s = length ps \<Longrightarrow>
   match_here (ps @ qs) (s @ t) = (match_here ps s \<and> match_here qs t)"
  by (induction s ps rule: list_induct2) simp_all

lemma timecodes_match:
  assumes "is_timecode a" "is_timecode b" "is_space w1" "is_space w2"
  shows "match_here timing_pattern (a @ [w1] @ ''-->'' @ [w2] @ b)"
proof -
  have n: "length timecode_pattern = 12"
    by (simp add: timecode_pattern_def)
  have "match_here [is_space, (=) CHR ''-'', (=) CHR ''-'', (=) CHR ''>'', is_space]
      ([w1] @ ''-->'' @ [w2])"
    using assms(3,4) by simp
  then have "match_here ([is_space, (=) CHR ''-'', (=) CHR ''-'', (=) CHR ''>'', is_space]
      @ timecode_pattern) (([w1] @ ''-->'' @ [w2]) @ b)"
    using assms(2) by (subst match_here_append) (simp_all add: is_timecode_def)
  then have "match_here (timecode_pattern
      @ [is_space, (=) CHR ''-'', (=) CHR ''-'', (=) CHR ''>'', is_space] @ timecode_pattern)
      (a @ ([w1] @ ''-->'' @ [w2]) @ b)"
    using assms(1) n by (subst match_here_append) (simp_all add: is_timecode_def)
  then show ?thesis
    by (simp add: timing_pattern_def)
qed

lemma timing_line_of_timecodes:
  assumes "is_timecode a" "is_timecode b" "is_space w1" "is_space w2"
  defines "line \<equiv> a @ [w1] @ ''-->'' @ [w2] @ b"
  shows "trim line = line" and "is_timing_line line"
    and "split ''-->'' line = [a @ [w1], [w2] @ b]"
    and "strip_spaces (a @ [w1]) = a" and "strip_spaces ([w2] @ b) = b"
proof -
  note ca = timecode_chars [OF assms(1)] and cb = timecode_chars [OF assms(2)]
  note ea = timecode_ends [OF assms(1)] and eb = timecode_ends [OF assms(2)]
  have "hd line = hd a" "last line = last b"
    using ea(1) eb(1) by (simp_all add: line_def)
  then show "trim line = line"
    using ea(2) eb(3) by (intro trim_ident) (simp_all add: line_def digit_not_other)
  show "is_timing_line line"
    unfolding is_timing_line_def line_def
    using regex_search_append [OF timecodes_match [OF assms(1-4)], of "[]"] by simp
  have n: "CHR ''-'' \<notin> set (a @ [w1])" "CHR ''-'' \<notin> set ([w2] @ b)"
    using ca cb assms(3,4) by (auto dest: space_not_other)
  have "split ''-->'' ((a @ [w1]) @ ''-->'' @ ([w2] @ b)) = (a @ [w1]) # split ''-->'' ([w2] @ b)"
    using split_first [of "CHR ''-''" "a @ [w1]" "''->''" "[w2] @ b"] n(1) by simp
  moreover have "split ''-->'' ([w2] @ b) = [[w2] @ b]"
    using split_no_sep [of "CHR ''-''" "[w2] @ b" "''->''"] n(2) by simp
  ultimately show "split ''-->'' line = [a @ [w1], [w2] @ b]"
    by (simp add: line_def)
  show "strip_spaces (a @ [w1]) = a" "strip_spaces ([w2] @ b) = b"
    using ca cb assms(3,4) by (simp_all add: strip_spaces_def filter_id_conv)
qed

lemma parse_line_timecodes:
  assumes "is_timecode a" "is_timecode b" "is_space w1" "is_space w2"
  shows "is_timing_line (trim (a @ [w1] @ ''-->'' @ [w2] @ b))
     \<and> parse_line (subtitles, currentSub) (a @ [w1] @ ''-->'' @ [w2] @ b) =
         Inr (subtitles, Some \<lparr>sub_start = parseTime (Some a), sub_end = parseTime (Some b),
                               sub_text = []\<rparr>)"
proof -
  note l = timing_line_of_timecodes [OF assms]
  have "\<not> is_index_line (a @ [w1] @ ''-->'' @ [w2] @ b)"
    using l(2) index_line_not_timing by blast
  then show ?thesis
    using l by (simp add: parse_line_def at_index_def)
qed

lemma timecode_no_gt:
  assumes "is_timecode a"
  shows "CHR ''>'' \<notin> set a"
proof
  assume "CHR ''>'' \<in> set a"
  from timecode_char_cases [OF assms this] show False
    by (simp add: is_digit_def is_sep_def)
qed

lemma timecode_colon:
  assumes "is_timecode a"
  shows "CHR '':'' \<in> set a"
  using timecode_explicit_ex [OF assms] by auto

lemma spaces_no_gt:
  assumes "list_all is_space ws"
  shows "CHR ''>'' \<notin> set ws"
proof
  assume "CHR ''>'' \<in> set ws"
  with assms have "is_space CHR ''>''"
    by (simp add: list_all_iff)
  then show False
    by (simp add: is_space_def)
qed

lemma timecodes_line_trim:
  assumes "is_timecode a" "is_timecode b"
  shows "trim (a @ m @ b) = a @ m @ b"
proof -
  note ea = timecode_ends [OF assms(1)] and eb = timecode_ends [OF assms(2)]
  have "hd (a @ m @ b) = hd a" "last (a @ m @ b) = last b"
    using ea(1) eb(1) by simp_all
  then show ?thesis
    using ea eb by (intro trim_ident) (simp_all add: digit_not_other)
qed

lemma arrow_spacing_exact:
  assumes "is_timecode a" "is_timecode b" "list_all is_space ws1" "list_all is_space ws2"
    and "is_timing_line (a @ ws1 @ ''-->'' @ ws2 @ b)"
  shows "length ws1 = 1 \<and> length ws2 = 1"
proof -
  from timing_line_shape [OF assms(5)] obtain pre a' w1 w2 b' post
    where l: "a @ ws1 @ ''-->'' @ ws2 @ b = pre @ a' @ [w1] @ ''-->'' @ [w2] @ b' @ post"
      and a': "is_timecode a'" and b': "is_timecode b'" and w: "is_space w1" "is_space w2"
    by (auto simp: is_timecode_def)
  have n: "CHR ''>'' \<notin> set (a @ ws1 @ ''--'')" "CHR ''>'' \<notin> set (ws2 @ b)"
    using timecode_no_gt [OF assms(1)] timecode_no_gt [OF assms(2)]
      spaces_no_gt [OF assms(3)] spaces_no_gt [OF assms(4)]
    by simp_all
  from l have "(a @ ws1 @ ''--'') @ CHR ''>'' # (ws2 @ b)
      = (pre @ a' @ [w1] @ ''--'') @ CHR ''>'' # ([w2] @ b' @ post)"
    by simp
  with append_Cons_eq_iff [OF n, of "pre @ a' @ [w1] @ ''--''" "[w2] @ b' @ post"]
  have "a @ ws1 @ ''--'' = pre @ a' @ [w1] @ ''--''"
    and right: "ws2 @ b = [w2] @ b' @ post"
    by blast+
  then have "(a @ ws1) @ ''--'' = (pre @ a' @ [w1]) @ ''--''"
    by simp
  then have left: "a @ ws1 = pre @ a' @ [w1]"
    by (simp only: append_same_eq)
  note ea = timecode_ends [OF assms(1)] and eb = timecode_ends [OF assms(2)]
    and ea' = timecode_ends [OF a'] and eb' = timecode_ends [OF b']
  have "length ws1 = 1"
  proof (cases ws1 rule: rev_cases)
    case Nil
    with left have "last a = w1"
      by (metis append_Nil2 append_assoc last_snoc)
    with ea(3) w(1) show ?thesis
      by (simp add: digit_not_other)
  next
    case (snoc ws1' w)
    with left have eq: "a @ ws1' = pre @ a'"
      by simp
    have "ws1' = []"
    proof (rule ccontr)
      assume ne: "ws1' \<noteq> []"
      then have "last (a @ ws1') = last ws1'"
        by simp
      moreover have "last (pre @ a') = last a'"
        using ea'(1) by simp
      moreover have "is_space (last ws1')"
        using assms(3) ne snoc by (simp add: list_all_iff)
      ultimately show False
        using eq ea'(3) by (simp add: digit_not_other)
    qed
    with snoc show ?thesis
      by simp
  qed
  moreover have "length ws2 = 1"
  proof (cases ws2)
    case Nil
    with right have "hd b = w2"
      by (metis append_Cons append_Nil list.sel(1))
    with eb(2) w(2) show ?thesis
      by (simp add: digit_not_other)
  next
    case (Cons w ws2')
    with right have eq: "ws2' @ b = b' @ post"
      by simp
    have "ws2' = []"
    proof (rule ccontr)
      assume ne: "ws2' \<noteq> []"
      then have "hd (ws2' @ b) = hd ws2'"
        by simp
      moreover have "hd (b' @ post) = hd b'"
        using eb'(1) by simp
      moreover have "is_space (hd ws2')"
        using assms(4) ne Cons by (cases ws2') (simp_all add: list_all_iff)
      ultimately show False
        using eq eb'(2) by (simp add: digit_not_other)
    qed
    with Cons show ?thesis
      by simp
  qed
  ultimately show ?thesis ..
qed

lemma parse_line_arrow_spacing:
  assumes "is_timecode a" "is_timecode b" "list_all is_space ws1" "list_all is_space ws2"
  shows "(is_timing_line (trim (a @ ws1 @ ''-->'' @ ws2 @ b))
            \<longleftrightarrow> length ws1 = 1 \<and> length ws2 = 1)
     \<and> (length ws1 = 1 \<and> length ws2 = 1 \<longrightarrow>
          parse_line (subtitles, currentSub) (a @ ws1 @ ''-->'' @ ws2 @ b) =
            Inr (subtitles, Some \<lparr>sub_start = parseTime (Some a),
                                  sub_end = parseTime (Some b), sub_text = []\<rparr>))
     \<and> (\<not> (length ws1 = 1 \<and> length ws2 = 1) \<longrightarrow>
          parse_line (subtitles, None) (a @ ws1 @ ''-->'' @ ws2 @ b) = Inr (subtitles, None)
          \<and> parse_line (subtitles, Some cur) (a @ ws1 @ ''-->'' @ ws2 @ b) =
              Inr (subtitles, Some (cur\<lparr>sub_text :=
                sub_text cur @ (if sub_text cur = [] then [] else [CHR 0x0D])
                  @ a @ ws1 @ ''-->'' @ ws2 @ b\<rparr>)))"
proof -
  define line where "line = a @ ws1 @ ''-->'' @ ws2 @ b"
  have tr: "trim line = line"
    using timecodes_line_trim [OF assms(1,2), of "ws1 @ ''-->'' @ ws2"] by (simp add: line_def)
  have one: "is_timing_line line
      \<and> parse_line (subtitles, currentSub) line =
            Inr (subtitles, Some \<lparr>sub_start = parseTime (Some a),
                                  sub_end = parseTime (Some b), sub_text = []\<rparr>)"
    if "length ws1 = 1 \<and> length ws2 = 1"
  proof -
    from that obtain w1 w2 where ws: "ws1 = [w1]" "ws2 = [w2]"
      by (auto simp: length_Suc_conv)
    with assms(3,4) have "is_space w1" "is_space w2"
      by simp_all
    from parse_line_timecodes [OF assms(1,2) this, of subtitles currentSub] show ?thesis
      using tr by (simp add: line_def ws)
  qed
  have other: "\<not> is_timing_line line
      \<and> parse_line (subtitles, None) line = Inr (subtitles, None)
      \<and> parse_line (subtitles, Some cur) line =
              Inr (subtitles, Some (cur\<lparr>sub_text :=
                sub_text cur @ (if sub_text cur = [] then [] else [CHR 0x0D]) @ line\<rparr>))"
    if n: "\<not> (length ws1 = 1 \<and> length ws2 = 1)"
  proof -
    have nt: "\<not> is_timing_line line"
      using arrow_spacing_exact [OF assms] n unfolding line_def by blast
    have "CHR '':'' \<in> set line"
      using timecode_colon [OF assms(1)] by (simp add: line_def)
    then have ni: "\<not> is_index_line line"
      by (auto simp: is_index_line_def list_all_iff dest: digit_not_other(2))
    have ne: "line \<noteq> []"
      using timecode_ends(1) [OF assms(1)] by (simp add: line_def)
    have "parse_line (subtitles, None) line = Inr (subtitles, None)"
      using nt ni ne by (simp add: parse_line_def tr)
    moreover have "parse_line (subtitles, Some cur) line =
              Inr (subtitles, Some (cur\<lparr>sub_text :=
                sub_text cur @ (if sub_text cur = [] then [] else [CHR 0x0D]) @ line\<rparr>))"
      using parse_line_text [of line subtitles cur] nt ne by (simp add: tr)
    ultimately show ?thesis
      using nt by simp
  qed
  from one other show ?thesis
    unfolding line_def [symmetric] tr by blast
qed

lemmas line_eval = trim_def is_index_line_def is_timing_line_def timing_pattern_def
  timecode_pattern_def is_sep_def is_digit_def is_space_def

text \<open>
  C7, as stated. The pattern asks for one whitespace character on each side of the arrow:
  a line without whitespace around the arrow, and a line with two spaces on each side, are
  not timing lines. With no subtitle in progress they are dropped.
\<close>

theorem arrow_spacing_counterexample:
  "\<not> is_timing_line (trim ''00:00:01,000-->00:00:02,000'')
   \<and> parse_line ([], None) ''00:00:01,000-->00:00:02,000'' = Inr ([], None)
   \<and> \<not> is_timing_line (trim ''00:00:01,000  -->  00:00:02,000'')
   \<and> parse_line ([], None) ''00:00:01,000  -->  00:00:02,000'' = Inr ([], None)"
  by (simp add: parse_line_def line_eval)

text \<open>
  C7, amended. Take a line made of a timecode \<open>HH:MM:SS[,.]mmm\<close>, whitespace, the arrow
  \<open>-->\<close>, whitespace and a timecode, with any number of whitespace characters on each
  side of the arrow. It is a timing line exactly when there is one whitespace character on
  each side. Then, whatever the state, it starts a subtitle in progress with the times of
  the two timecodes and an empty text. With no whitespace or with several whitespace
  characters on a side it is not a timing line: it is read as a text line, dropped when no
  subtitle is in progress and appended to the text of the subtitle in progress otherwise.
\<close>

theorem timing_line_one_space:
  assumes "is_timecode a" "is_timecode b" "list_all is_space ws1" "list_all is_space ws2"
  shows "(is_timing_line (trim (a @ ws1 @ ''-->'' @ ws2 @ b))
            \<longleftrightarrow> length ws1 = 1 \<and> length ws2 = 1)
     \<and> (length ws1 = 1 \<and> length ws2 = 1 \<longrightarrow>
          parse_line (subtitles, currentSub) (a @ ws1 @ ''-->'' @ ws2 @ b) =
            Inr (subtitles, Some \<lparr>sub_start = parseTime (Some a),
                                  sub_end = parseTime (Some b), sub_text = []\<rparr>))
     \<and> (\<not> (length ws1 = 1 \<and> length ws2 = 1) \<longrightarrow>
          parse_line (subtitles, None) (a @ ws1 @ ''-->'' @ ws2 @ b) = Inr (subtitles, None)
          \<and> parse_line (subtitles, Some cur) (a @ ws1 @ ''-->'' @ ws2 @ b) =
              Inr (subtitles, Some (cur\<lparr>sub_text :=
                sub_text cur @ (if sub_text cur = [] then [] else [CHR 0x0D])
                  @ a @ ws1 @ ''-->'' @ ws2 @ b\<rparr>)))"
  using assms by (rule parse_line_arrow_spacing)

text \<open>
  A space before the arrow and a tab after it; a space before and two spaces after; nothing
  before and a space after.
\<close>

theorem timing_line_one_space_witness:
  "is_timecode ''00:00:01,000'' \<and> is_timecode ''00:00:02.500''
   \<and> list_all is_space [CHR 0x20] \<and> list_all is_space [CHR 0x09]
   \<and> list_all is_space [CHR 0x20, CHR 0x20] \<and> list_all is_space []
   \<and> is_timing_line (trim (''00:00:01,000'' @ [CHR 0x20] @ ''-->'' @ [CHR 0x09] @ ''00:00:02.500''))
   \<and> parse_line ([], None) (''00:00:01,000'' @ [CHR 0x20] @ ''-->'' @ [CHR 0x09] @ ''00:00:02.500'')
       = Inr ([], Some \<lparr>sub_start = Fin 1, sub_end = Fin (5 / 2), sub_text = []\<rparr>)
   \<and> \<not> is_timing_line
         (trim (''00:00:01,000'' @ [CHR 0x20] @ ''-->'' @ [CHR 0x20, CHR 0x20] @ ''00:00:02.500''))
   \<and> parse_line ([], None)
         (''00:00:01,000'' @ [CHR 0x20] @ ''-->'' @ [CHR 0x20, CHR 0x20] @ ''00:00:02.500'')
       = Inr ([], None)
   \<and> \<not> is_timing_line (trim (''00:00:01,000'' @ [] @ ''-->'' @ [CHR 0x20] @ ''00:00:02.500''))"
proof -
  have h: "is_timecode ''00:00:01,000''" "is_timecode ''00:00:02.500''"
    by (simp_all add: is_timecode_def timecode_pattern_def is_digit_def is_sep_def)
  have s: "list_all is_space [CHR 0x20]" "list_all is_space [CHR 0x09]"
    "list_all is_space [CHR 0x20, CHR 0x20]" "list_all is_space []"
    by (simp_all add: is_space_def)
  have t: "parseTime (Some ''00:00:01,000'') = Fin 1"
    "parseTime (Some ''00:00:02.500'') = Fin (5 / 2)"
    by (simp_all add: parseTime_eval)
  have l: "length [CHR 0x20] = 1" "length [CHR 0x09] = 1" "length [CHR 0x20, CHR 0x20] \<noteq> 1"
    "length ([] :: string) \<noteq> 1"
    by simp_all
  note one = timing_line_one_space [OF h s(1) s(2), of "[]" None]
  note two = timing_line_one_space [OF h s(1) s(3), of "[]" None]
  note none = timing_line_one_space [OF h s(4) s(1), of "[]" None]
  from one l have "is_timing_line
      (trim (''00:00:01,000'' @ [CHR 0x20] @ ''-->'' @ [CHR 0x09] @ ''00:00:02.500''))"
    and "parse_line ([], None) (''00:00:01,000'' @ [CHR 0x20] @ ''-->'' @ [CHR 0x09] @ ''00:00:02.500'')
       = Inr ([], Some \<lparr>sub_start = Fin 1, sub_end = Fin (5 / 2), sub_text = []\<rparr>)"
    unfolding t by blast+
  moreover from two l have "\<not> is_timing_line
      (trim (''00:00:01,000'' @ [CHR 0x20] @ ''-->'' @ [CHR 0x20, CHR 0x20] @ ''00:00:02.500''))"
    and "parse_line ([], None)
         (''00:00:01,000'' @ [CHR 0x20] @ ''-->'' @ [CHR 0x20, CHR 0x20] @ ''00:00:02.500'')
       = Inr ([], None)"
    by blast+
  moreover from none l have "\<not> is_timing_line
      (trim (''00:00:01,000'' @ [] @ ''-->'' @ [CHR 0x20] @ ''00:00:02.500''))"
    by blast
  ultimately show ?thesis
    using h s by blast
qed

section \<open>Timecodes that do not parse\<close>








section \<open>The times of a subtitle\<close>

text \<open>
  C6, as stated. A timing line whose end is before its start gives a subtitle whose end is
  before its start: the parser does not compare the two times.
\<close>

theorem start_after_end_counterexample:
  "parseSRT (''1'' @ [CHR 0x0A] @ ''00:00:05,000 --> 00:00:01,000'' @ [CHR 0x0A] @ ''hi'')
     = Inr [\<lparr>sub_start = Fin 5, sub_end = Fin 1, sub_text = ''hi''\<rparr>]
   \<and> \<not> js_le (Fin 5) (Fin 1)"
  by (simp add: parse_eval parseTime_eval js_le_def)

text \<open>
  C6, amended. Every subtitle of the result has the start and the end that \<open>parseTime\<close>
  reads from the tokens before and after the first arrow of one timing line of the input,
  as they are written; nothing orders them, so \<open>start \<le> end\<close> holds when that line is
  written so.
\<close>

theorem cue_times_from_timing_line:
  assumes "parseSRT rawData = Inr subs" and "c \<in> set subs"
  shows "\<exists>l\<in>set (srt_lines rawData). is_timing_line (trim l)
     \<and> (\<exists>t0 t1 ts. split ''-->'' (trim l) = t0 # t1 # ts
           \<and> sub_start c = parseTime (Some (strip_spaces t0))
           \<and> sub_end c = parseTime (Some (strip_spaces t1)))"
proof -
  define timed where "timed L c \<longleftrightarrow> (\<exists>l\<in>L. is_timing_line (trim l)
     \<and> (\<exists>t0 t1 ts. split ''-->'' (trim l) = t0 # t1 # ts
           \<and> sub_start c = parseTime (Some (strip_spaces t0))
           \<and> sub_end c = parseTime (Some (strip_spaces t1))))"
    for L and c :: subtitle
  define inv where "inv L st \<longleftrightarrow> (\<forall>c\<in>set (fst st). timed L c)
     \<and> (\<forall>c. snd st = Some c \<longrightarrow> timed L c)"
    for L and st :: parser_state
  have mono: "timed L c \<Longrightarrow> timed (insert l L) c" for L l c
    by (auto simp: timed_def)
  have upd: "timed L (c\<lparr>sub_text := x\<rparr>) = timed L c" for L c x
    by (simp add: timed_def)
  have step: "inv (insert l L) st'" if "parse_line st l = Inr st'" "inv L st" for L l st st'
  proof (cases "is_timing_line (trim l)")
    case True
    from parse_line_timing [OF True, of "fst st" "snd st"] that(1)
    obtain t0 t1 ts where "split ''-->'' (trim l) = t0 # t1 # ts"
      and "st' = (fst st, Some \<lparr>sub_start = parseTime (Some (strip_spaces t0)),
                               sub_end = parseTime (Some (strip_spaces t1)), sub_text = []\<rparr>)"
      by auto
    with True have "timed (insert l L) c" if "snd st' = Some c" for c
      using that by (auto simp: timed_def)
    moreover have "timed (insert l L) c" if "c \<in> set (fst st')" for c
      using that \<open>st' = _\<close> \<open>inv L st\<close> by (auto simp: inv_def intro: mono)
    ultimately show ?thesis
      by (simp add: inv_def)
  next
    case False
    with that show ?thesis
      by (cases st) (auto simp: parse_line_def Let_def inv_def upd intro!: mono
          split: if_splits option.splits)
  qed
  have loop: "inv (L \<union> set ls) st'" if "parse_lines st ls = Inr st'" "inv L st" for L ls st st'
    using that
  proof (induction ls arbitrary: st L)
    case Nil
    then show ?case by simp
  next
    case (Cons l ls)
    from Cons.prems(1) obtain st1 where 1: "parse_line st l = Inr st1"
      and 2: "parse_lines st1 ls = Inr st'"
      by (auto split: sum.splits)
    from step [OF 1 Cons.prems(2)] have "inv (insert l L) st1" .
    from Cons.IH [OF 2 this] show ?case
      by simp
  qed
  from assms(1) obtain st where st: "parse_lines ([], None) (srt_lines rawData) = Inr st"
    and subs: "subs = finish st"
    by (auto simp: parseSRT_def split: sum.splits)
  have "inv {} ([], None)"
    by (simp add: inv_def)
  from loop [OF st this] have "inv (set (srt_lines rawData)) st"
    by simp
  with assms(2) have "timed (set (srt_lines rawData)) c"
    by (auto simp: subs finish_def inv_def split: option.splits)
  then show ?thesis
    by (simp add: timed_def)
qed

theorem cue_times_from_timing_line_witness:
  "parseSRT (''1'' @ [CHR 0x0A] @ ''00:00:05,000 --> 00:00:01,000'' @ [CHR 0x0A] @ ''hi'')
     = Inr [\<lparr>sub_start = Fin 5, sub_end = Fin 1, sub_text = ''hi''\<rparr>]
   \<and> (\<exists>l\<in>set (srt_lines
          (''1'' @ [CHR 0x0A] @ ''00:00:05,000 --> 00:00:01,000'' @ [CHR 0x0A] @ ''hi'')).
        is_timing_line (trim l)
        \<and> (\<exists>t0 t1 ts. split ''-->'' (trim l) = t0 # t1 # ts
              \<and> Fin 5 = parseTime (Some (strip_spaces t0))
              \<and> Fin 1 = parseTime (Some (strip_spaces t1))))"
proof -
  have p: "parseSRT (''1'' @ [CHR 0x0A] @ ''00:00:05,000 --> 00:00:01,000'' @ [CHR 0x0A] @ ''hi'')
     = Inr [\<lparr>sub_start = Fin 5, sub_end = Fin 1, sub_text = ''hi''\<rparr>]"
    by (simp add: parse_eval parseTime_eval)
  from cue_times_from_timing_line [OF p, of "\<lparr>sub_start = Fin 5, sub_end = Fin 1, sub_text = ''hi''\<rparr>"]
  show ?thesis
    using p by simp
qed

section \<open>The time of a timecode\<close>

lemma digits_val_Nil: "digits_val [] = 0"
  by (simp add: digits_val_def)

lemma digit_not_colon: "is_digit c \<Longrightarrow> CHR '':'' \<noteq> c"
  by (auto simp: is_digit_def)

lemma sep_cases: "is_sep c \<Longrightarrow> c = CHR '','' \<or> c = CHR ''.''"
  by (simp add: is_sep_def)

lemma parseFloat_two_digits:
  assumes "is_digit d1" "is_digit d2"
  shows "parseFloat (Some [d1, d2]) = fl (of_int (digits_val [d1, d2]))"
proof -
  have "d1 \<noteq> CHR ''+''" "d1 \<noteq> CHR ''-''" "d1 \<noteq> CHR ''I''" "\<not> is_space d1"
    using assms(1) by (auto simp: is_digit_def is_space_def)
  then show ?thesis
    using assms
    by (simp add: parseFloat_def unsigned_literal_def decimal_value_def exponent_part_def
        pow10_def digits_val_Nil)
qed

lemma parseFloat_seconds:
  assumes "is_digit d1" "is_digit d2" "is_digit f1" "is_digit f2" "is_digit f3"
  shows "parseFloat (Some [d1, d2, CHR ''.'', f1, f2, f3])
     = fl (of_int (digits_val [d1, d2]) + of_int (digits_val [f1, f2, f3]) / 1000)"
proof -
  have "d1 \<noteq> CHR ''+''" "d1 \<noteq> CHR ''-''" "d1 \<noteq> CHR ''I''" "\<not> is_space d1"
    using assms(1) by (auto simp: is_digit_def is_space_def)
  moreover have "\<not> is_digit CHR ''.''"
    by (simp add: is_digit_def)
  ultimately show ?thesis
    using assms
    by (simp add: parseFloat_def unsigned_literal_def decimal_value_def exponent_part_def
        pow10_def digits_val_Nil)
qed

lemma parseTime_explicit:
  assumes "is_digit h1" "is_digit h2" "is_digit m1" "is_digit m2" "is_digit s1" "is_digit s2"
    and "is_sep sep" "is_digit f1" "is_digit f2" "is_digit f3"
  shows "parseTime (Some [h1, h2, CHR '':'', m1, m2, CHR '':'', s1, s2, sep, f1, f2, f3])
     = js_add (js_add (js_mul (fl (of_int (digits_val [h1, h2]))) (Fin 3600))
                      (js_mul (fl (of_int (digits_val [m1, m2]))) (Fin 60)))
              (fl (of_int (digits_val [s1, s2]) + of_int (digits_val [f1, f2, f3]) / 1000))"
proof -
  note d = assms(1-6,8-10)
  have r: "replace_first CHR '','' CHR ''.'' [h1, h2, CHR '':'', m1, m2, CHR '':'', s1, s2, sep, f1, f2, f3]
      = [h1, h2, CHR '':'', m1, m2, CHR '':'', s1, s2, CHR ''.'', f1, f2, f3]"
    using d assms(7) by (auto simp: digit_not_other dest: sep_cases)
  have s: "split '':'' [h1, h2, CHR '':'', m1, m2, CHR '':'', s1, s2, CHR ''.'', f1, f2, f3]
      = [[h1, h2], [m1, m2], [s1, s2, CHR ''.'', f1, f2, f3]]"
    using d by (simp add: split_def digit_not_colon)
  have "parseTime (Some [h1, h2, CHR '':'', m1, m2, CHR '':'', s1, s2, sep, f1, f2, f3])
      = js_add (js_add (js_mul (parseFloat (Some [h1, h2])) (Fin 3600))
                       (js_mul (parseFloat (Some [m1, m2])) (Fin 60)))
               (parseFloat (Some [s1, s2, CHR ''.'', f1, f2, f3]))"
    by (simp only: parseTime_def option.case list.distinct if_False r s Let_def)
      (simp add: at_index_def)
  then show ?thesis
    using d by (simp only: parseFloat_two_digits parseFloat_seconds)
qed

lemma digit_val_range: "is_digit c \<Longrightarrow> 0 \<le> digit_val c \<and> digit_val c \<le> 9"
  by (auto simp: is_digit_def digit_val_def)

lemma two_digits_range:
  assumes "is_digit d1" "is_digit d2"
  shows "0 \<le> digits_val [d1, d2] \<and> digits_val [d1, d2] \<le> 99"
  using digit_val_range [OF assms(1)] digit_val_range [OF assms(2)]
  by (simp add: digits_val_def)

lemma hours_minutes_exact:
  assumes "0 \<le> H" "H \<le> 99" "0 \<le> M" "M \<le> 99"
  shows "js_add (js_mul (fl (of_int H)) (Fin 3600)) (js_mul (fl (of_int M)) (Fin 60))
     = Fin (of_int (H * 3600 + M * 60))"
proof -
  have h: "fl (of_int H) = Fin (of_int H)"
    by (rule fl_int) (use assms in simp_all)
  have m: "fl (of_int M) = Fin (of_int M)"
    by (rule fl_int) (use assms in simp_all)
  have hs: "fl (of_int (H * 3600)) = Fin (of_int (H * 3600))"
    by (rule fl_int) (use assms in simp_all)
  have ms: "fl (of_int (M * 60)) = Fin (of_int (M * 60))"
    by (rule fl_int) (use assms in simp_all)
  have sum: "fl (of_int (H * 3600 + M * 60)) = Fin (of_int (H * 3600 + M * 60))"
    by (rule fl_int) (use assms in simp_all)
  have "js_mul (fl (of_int H)) (Fin 3600) = fl (of_int (H * 3600))"
    by (simp add: h)
  moreover have "js_mul (fl (of_int M)) (Fin 60) = fl (of_int (M * 60))"
    by (simp add: m)
  moreover have "js_add (Fin (of_int (H * 3600))) (Fin (of_int (M * 60)))
      = fl (of_int (H * 3600 + M * 60))"
    by simp
  ultimately show ?thesis
    by (simp only: hs ms sum)
qed

text \<open>
  C5. For every token \<open>HH:MM:SS,mmm\<close> or \<open>HH:MM:SS.mmm\<close>, \<open>parseTime\<close> is
  \<open>H * 3600 + M * 60 + S.mmm\<close> in binary64 arithmetic: \<open>H * 3600 + M * 60\<close> is an
  integer that the arithmetic computes without rounding, \<open>S.mmm\<close> is the decimal value
  of the last part as \<open>parseFloat\<close> rounds it, and their sum is rounded once more.
  \<open>parseTime("01:02:03,456")\<close> is the number 3723.456, \<open>parseTime("00:00:00,000")\<close>
  is 0, and the empty string and a missing argument give 0.
\<close>

theorem parseTime_timecode:
  "(is_timecode tok \<longrightarrow>
      parseTime (Some tok)
        = js_add (Fin (of_int (digits_val (take 2 tok) * 3600
                               + digits_val (take 2 (drop 3 tok)) * 60)))
                 (fl (of_int (digits_val (take 2 (drop 6 tok)))
                      + of_int (digits_val (drop 9 tok)) / 1000)))
   \<and> parseTime (Some ''01:02:03,456'') = fl (3723456 / 1000)
   \<and> parseTime (Some ''00:00:00,000'') = Fin 0
   \<and> parseTime (Some []) = Fin 0
   \<and> parseTime None = Fin 0"
proof (intro conjI impI)
  assume "is_timecode tok"
  from timecode_explicit_ex [OF this] obtain h1 h2 m1 m2 s1 s2 sep f1 f2 f3
    where tok: "tok = [h1, h2, CHR '':'', m1, m2, CHR '':'', s1, s2, sep, f1, f2, f3]"
      and d: "is_digit h1" "is_digit h2" "is_digit m1" "is_digit m2" "is_digit s1" "is_digit s2"
        "is_sep sep" "is_digit f1" "is_digit f2" "is_digit f3"
    by blast
  have "js_add (js_mul (fl (of_int (digits_val [h1, h2]))) (Fin 3600))
               (js_mul (fl (of_int (digits_val [m1, m2]))) (Fin 60))
      = Fin (of_int (digits_val [h1, h2] * 3600 + digits_val [m1, m2] * 60))"
    using two_digits_range [OF d(1,2)] two_digits_range [OF d(3,4)]
    by (intro hours_minutes_exact) simp_all
  then show "parseTime (Some tok)
        = js_add (Fin (of_int (digits_val (take 2 tok) * 3600
                               + digits_val (take 2 (drop 3 tok)) * 60)))
                 (fl (of_int (digits_val (take 2 (drop 6 tok)))
                      + of_int (digits_val (drop 9 tok)) / 1000))"
    unfolding tok parseTime_explicit [OF d] by simp
next
  show "parseTime (Some ''01:02:03,456'') = fl (3723456 / 1000)"
    by (simp add: parseTime_eval)
  show "parseTime (Some ''00:00:00,000'') = Fin 0"
    by (simp add: parseTime_eval)
  show "parseTime (Some []) = Fin 0" "parseTime None = Fin 0"
    by (simp_all add: parseTime_def)
qed

text \<open>The token \<open>12:34:56.789\<close>: the result is the number 45296.789.\<close>

theorem parseTime_timecode_witness:
  "is_timecode ''12:34:56.789''
   \<and> parseTime (Some ''12:34:56.789'') = js_add (Fin 45240) (fl (56789 / 1000))
   \<and> parseTime (Some ''12:34:56.789'') = fl (45296789 / 1000)"
proof -
  have t: "is_timecode ''12:34:56.789''"
    by (simp add: is_timecode_def timecode_pattern_def is_digit_def is_sep_def)
  have v: "digits_val ''12'' = 12" "digits_val ''34'' = 34" "digits_val ''56'' = 56"
    "digits_val ''789'' = 789"
    by (simp_all add: digits_val_def digit_val_def)
  from parseTime_timecode [of "''12:34:56.789''"] t
  have p: "parseTime (Some ''12:34:56.789'') = js_add (Fin 45240) (fl (56789 / 1000))"
    by (simp add: v)
  moreover have "js_add (Fin 45240) (fl (56789 / 1000)) = fl (45296789 / 1000)"
    by (simp add: fl_eval)
  ultimately show ?thesis
    using t by simp
qed

section \<open>Well-formed blocks\<close>























end
